theory Spec2Isabelle
  imports Main
begin

section \<open>The forwarded-identity gate of the Flowise server\<close>

text \<open>
  A shallow embedding of \<^verbatim>\<open>packages/server/src/services/flowise-user/index.ts\<close>
  (the identity store), of the entity \<^verbatim>\<open>FlowiseUser\<close> and of the authentication
  middleware registered in \<^verbatim>\<open>App.config\<close>.
\<close>

subsection \<open>Strings and regular expressions\<close>

text \<open>\<^verbatim>\<open>String.prototype.startsWith\<close>: \<open>startsWith s p\<close> is \<^verbatim>\<open>s.startsWith(p)\<close>.\<close>

fun startsWith :: "string \<Rightarrow> string \<Rightarrow> bool" where
  "startsWith s [] = True"
| "startsWith [] (p # ps) = False"
| "startsWith (c # cs) (p # ps) = (c = p \<and> startsWith cs ps)"

text \<open>
  The two regular expressions of the gate are literals without operators, so a
  \<^verbatim>\<open>RegExp\<close> is its source text and its \<^verbatim>\<open>i\<close> flag. With the flag, two
  characters match when their canonical forms (the code unit of the upper-case letter)
  agree. Only the letters \<^verbatim>\<open>a\<close> to \<^verbatim>\<open>z\<close> are folded: ECMAScript never folds a
  character outside ASCII onto an ASCII one, and every character of the pattern is ASCII.
\<close>

record RegExp =
  source :: string
  ignoreCase :: bool

definition canonicalize :: "bool \<Rightarrow> char \<Rightarrow> nat" where
  "canonicalize ic c =
     (let n = of_char c
      in if ic \<and> 97 \<le> n \<and> n \<le> 122 then n - 32 else n)"

text \<open>The pattern matched at the head of the input.\<close>

fun match_here :: "bool \<Rightarrow> string \<Rightarrow> string \<Rightarrow> bool" where
  "match_here ic [] s = True"
| "match_here ic (p # ps) [] = False"
| "match_here ic (p # ps) (c # cs) =
     (canonicalize ic p = canonicalize ic c \<and> match_here ic ps cs)"

text \<open>The unanchored search: the pattern is tried at every index, left to right.\<close>

fun search :: "bool \<Rightarrow> string \<Rightarrow> string \<Rightarrow> bool" where
  "search ic pat [] = match_here ic pat []"
| "search ic pat (c # cs) = (match_here ic pat (c # cs) \<or> search ic pat cs)"

text \<open>\<^verbatim>\<open>RegExp.prototype.test\<close> of a regular expression without the global flag.\<close>

definition test :: "RegExp \<Rightarrow> string \<Rightarrow> bool" where
  "test re s = search (ignoreCase re) (source re) s"

definition URL_CASE_INSENSITIVE_REGEX :: RegExp where
  "URL_CASE_INSENSITIVE_REGEX = \<lparr>source = ''/api/v1/'', ignoreCase = True\<rparr>"

definition URL_CASE_SENSITIVE_REGEX :: RegExp where
  "URL_CASE_SENSITIVE_REGEX = \<lparr>source = ''/api/v1/'', ignoreCase = False\<rparr>"

subsection \<open>The identity attached to a request\<close>

text \<open>
  \<^verbatim>\<open>Express.User\<close>: the fields the gate writes. An optional property and a value that
  may be \<^verbatim>\<open>undefined\<close> are options.
\<close>

record User =
  id' :: string
  email :: string
  isAuthenticatedByHeader :: "bool option"
  name :: string
  roleId :: string
  activeOrganizationId :: string
  activeOrganizationSubscriptionId :: string
  activeOrganizationCustomerId :: string
  activeOrganizationProductId :: string
  isOrganizationAdmin :: bool
  activeWorkspaceId :: string
  activeWorkspace :: string
  assignedWorkspaces :: "string list"
  isApiKeyValidated :: bool
  permissions :: "string list"
  features :: "string \<rightharpoonup> string"
  ssoRefreshToken :: "string option"
  ssoToken :: "string option"
  ssoProvider :: "string option"

subsection \<open>The entity and the identity store\<close>

text \<open>
  The entity \<^verbatim>\<open>FlowiseUser\<close>: a generated \<^verbatim>\<open>uuid\<close> primary key, a \<^verbatim>\<open>unique\<close>
  email column and the two date columns the storage layer fills in.
\<close>

record FlowiseUser =
  id' :: string
  email :: string
  createdDate :: nat
  updatedDate :: nat

text \<open>The rows of the user table, in insertion order.\<close>

type_synonym user_table = "FlowiseUser list"

datatype db_error = StorageFailure | UniqueViolation

text \<open>
  What the storage layer contributes to one call and the code does not control: whether
  the \<^verbatim>\<open>SELECT\<close> or the \<^verbatim>\<open>INSERT\<close> fails (a lost connection, a timeout, any
  rejection other than the email constraint), the primary key it generates and its clock.
\<close>

record db_env =
  find_fails :: bool
  save_fails :: bool
  uuid :: string
  now :: nat

text \<open>\<^verbatim>\<open>userRepository.findOneBy({ email })\<close>: the first row with that email, or null.\<close>

definition findOneBy :: "db_env \<Rightarrow> user_table \<Rightarrow> string \<Rightarrow> db_error + FlowiseUser option" where
  "findOneBy env t e =
     (if find_fails env then Inl StorageFailure
      else Inr (find (\<lambda>u. email u = e) t))"

text \<open>
  \<^verbatim>\<open>userRepository.save(newUser)\<close> of a new entity that has only its email set: an
  \<^verbatim>\<open>INSERT\<close>, rejected by the \<^verbatim>\<open>unique\<close> constraint of the email column when a
  row with that email is there.
\<close>

definition save :: "db_env \<Rightarrow> user_table \<Rightarrow> string \<Rightarrow> db_error + (FlowiseUser \<times> user_table)" where
  "save env t e =
     (if save_fails env then Inl StorageFailure
      else if list_ex (\<lambda>u. email u = e) t then Inl UniqueViolation
      else (let user = \<lparr>id' = uuid env, email = e,
                        createdDate = now env, updatedDate = now env\<rparr>
            in Inr (user, t @ [user])))"

text \<open>
  \<^verbatim>\<open>FlowiseUserService.findOrCreateUserByEmail\<close>, run with no other request between its
  two awaits. A rejected promise is \<open>Inl\<close>; the table is returned as the call leaves it.
\<close>

definition findOrCreateUserByEmail ::
  "db_env \<Rightarrow> user_table \<Rightarrow> string \<Rightarrow> (db_error + FlowiseUser) \<times> user_table" where
  "findOrCreateUserByEmail env t e =
     (case findOneBy env t e of
        Inl err \<Rightarrow> (Inl err, t)
      | Inr (Some user) \<Rightarrow> (Inr user, t)
      | Inr None \<Rightarrow>
          (case save env t e of
             Inl err \<Rightarrow> (Inl err, t)
           | Inr (user, t') \<Rightarrow> (Inr user, t')))"

text \<open>
  The same function with its two awaits cut open. Between them other requests run, and
  what the storage layer answers to the \<^verbatim>\<open>save\<close> then is decided by its transactions
  and by those requests, not by this code. So the two answers are given from outside:
  \<open>fr\<close> is what \<^verbatim>\<open>findOneBy\<close> settles to, \<open>sr\<close> what \<^verbatim>\<open>save\<close> settles to when it is
  called. The result comes with the storage operations the call issued, in order.
\<close>

datatype storage_call = FindOneBy string | Save string

definition findOrCreateUserByEmail_awaits ::
  "db_error + FlowiseUser option \<Rightarrow> db_error + FlowiseUser \<Rightarrow> string \<Rightarrow>
     (db_error + FlowiseUser) \<times> storage_call list" where
  "findOrCreateUserByEmail_awaits fr sr e =
     (case fr of
        Inl err \<Rightarrow> (Inl err, [FindOneBy e])
      | Inr (Some user) \<Rightarrow> (Inr user, [FindOneBy e])
      | Inr None \<Rightarrow>
          (case sr of
             Inl err \<Rightarrow> (Inl err, [FindOneBy e, Save e])
           | Inr user \<Rightarrow> (Inr user, [FindOneBy e, Save e])))"

text \<open>At most one row per email: the invariant the \<^verbatim>\<open>unique\<close> column keeps.\<close>

definition unique_emails :: "user_table \<Rightarrow> bool" where
  "unique_emails t = distinct (map email t)"

subsection \<open>The request and the response\<close>

text \<open>
  The request as the gate reads it: \<^verbatim>\<open>req.path\<close>, \<^verbatim>\<open>req.headers\<close> (Node stores the
  names in lower case) and \<^verbatim>\<open>req.user\<close>, which an earlier middleware may have set.
\<close>

record request =
  path :: string
  headers :: "string \<rightharpoonup> string"
  user :: "User option"

text \<open>
  What the gate does with the response: \<^verbatim>\<open>next()\<close>, or
  \<^verbatim>\<open>res.status(code).json({ error: message })\<close>.
\<close>

datatype response = Next | StatusJson nat string

text \<open>
  The calls into collaborators, in order. \<open>ValidateAPIKey\<close> is the key validation of
  \<^verbatim>\<open>utils/validateKey\<close> that the older test suite mocks; the import is removed from
  the gate, which has no call to it.
\<close>

datatype call =
  FindOrCreateUserByEmail string
| LoggerError db_error
| ValidateAPIKey

record gate_result =
  sent :: response
  req' :: request
  db' :: user_table
  calls :: "call list"

text \<open>The object literal \<^verbatim>\<open>loggedInUserShape\<close>.\<close>

definition loggedInUserShape :: "FlowiseUser \<Rightarrow> User" where
  "loggedInUserShape flowiseDbUser =
     \<lparr>User.id' = FlowiseUser.id' flowiseDbUser,
      User.email = FlowiseUser.email flowiseDbUser,
      isAuthenticatedByHeader = Some True,
      name = FlowiseUser.email flowiseDbUser,
      roleId = '''',
      activeOrganizationId = '''',
      activeOrganizationSubscriptionId = '''',
      activeOrganizationCustomerId = '''',
      activeOrganizationProductId = '''',
      isOrganizationAdmin = False,
      activeWorkspaceId = '''',
      activeWorkspace = '''',
      assignedWorkspaces = [],
      isApiKeyValidated = False,
      permissions = [],
      features = Map.empty,
      ssoRefreshToken = None,
      ssoToken = None,
      ssoProvider = None\<rparr>"

subsection \<open>The authentication middleware\<close>

text \<open>
  The middleware of \<^verbatim>\<open>App.config\<close>. \<^verbatim>\<open>WHITELIST_URLS\<close> comes from
  \<^verbatim>\<open>utils/constants\<close> and is a parameter here. The header is a string or
  \<^verbatim>\<open>undefined\<close>; \<^verbatim>\<open>if (forwardedEmail)\<close> holds for a string that is not empty.
\<close>

definition middleware ::
  "string list \<Rightarrow> db_env \<Rightarrow> user_table \<Rightarrow> request \<Rightarrow> gate_result" where
  "middleware whitelistURLs env db req =
     (if test URL_CASE_INSENSITIVE_REGEX (path req) then
        if test URL_CASE_SENSITIVE_REGEX (path req) then
          if list_ex (\<lambda>url. startsWith (path req) url) whitelistURLs then
            \<lparr>sent = Next, req' = req, db' = db, calls = []\<rparr>
          else
            (case headers req ''x-forwarded-email'' of
               None \<Rightarrow>
                 \<lparr>sent = StatusJson 401 ''Unauthorized: X-Forwarded-Email header is required'',
                  req' = req, db' = db, calls = []\<rparr>
             | Some forwardedEmail \<Rightarrow>
                 if forwardedEmail \<noteq> [] then
                   (case findOrCreateUserByEmail env db forwardedEmail of
                      (Inr flowiseDbUser, db2) \<Rightarrow>
                        \<lparr>sent = Next,
                         req' = req\<lparr>user := Some (loggedInUserShape flowiseDbUser)\<rparr>,
                         db' = db2,
                         calls = [FindOrCreateUserByEmail forwardedEmail]\<rparr>
                    | (Inl error, db2) \<Rightarrow>
                        \<lparr>sent = StatusJson 500 ''Internal Server Error during authentication'',
                         req' = req,
                         db' = db2,
                         calls = [FindOrCreateUserByEmail forwardedEmail, LoggerError error]\<rparr>)
                 else
                   \<lparr>sent = StatusJson 401 ''Unauthorized: X-Forwarded-Email header is required'',
                    req' = req, db' = db, calls = []\<rparr>)
        else
          \<lparr>sent = StatusJson 401 ''Unauthorized Access - Invalid Path Structure'',
           req' = req, db' = db, calls = []\<rparr>
      else
        \<lparr>sent = Next, req' = req, db' = db, calls = []\<rparr>)"

subsection \<open>Fixtures of the test suites\<close>

definition NEW_USER_EMAIL :: string where
  "NEW_USER_EMAIL = ''new.user@example.com''"

definition MOCK_USER_ID :: string where
  "MOCK_USER_ID = ''mock-user-id''"

definition PROTECTED_ROUTE :: string where
  "PROTECTED_ROUTE = ''/api/v1/chatflows''"

definition WHITELISTED_ROUTE :: string where
  "WHITELISTED_ROUTE = ''/api/v1/marketplaces/chatflows''"

text \<open>A storage layer that works, and one whose \<^verbatim>\<open>SELECT\<close> fails.\<close>

definition working_db :: db_env where
  "working_db = \<lparr>find_fails = False, save_fails = False, uuid = MOCK_USER_ID, now = 0\<rparr>"

definition broken_db :: db_env where
  "broken_db = \<lparr>find_fails = True, save_fails = False, uuid = MOCK_USER_ID, now = 0\<rparr>"

definition new_user_row :: FlowiseUser where
  "new_user_row = \<lparr>id' = MOCK_USER_ID, email = NEW_USER_EMAIL, createdDate = 0, updatedDate = 0\<rparr>"

text \<open>A request for a path with no header, and one with the forwarded email.\<close>

definition bare_request :: "string \<Rightarrow> request" where
  "bare_request p = \<lparr>path = p, headers = Map.empty, user = None\<rparr>"

definition forwarded_request :: "string \<Rightarrow> string \<Rightarrow> request" where
  "forwarded_request p e = \<lparr>path = p, headers = [''x-forwarded-email'' \<mapsto> e], user = None\<rparr>"

section \<open>Lemmas\<close>

subsection \<open>The two regular expressions\<close>

lemma canonicalize_False [simp]: "canonicalize False c = of_char c"
  by (simp add: canonicalize_def)

lemma match_here_ci: "match_here False pat s \<Longrightarrow> match_here True pat s"
  by (induction False pat s rule: match_here.induct) auto

lemma search_ci: "search False pat s \<Longrightarrow> search True pat s"
  by (induction s) (auto simp: match_here_ci)

lemma cs_imp_ci: "test URL_CASE_SENSITIVE_REGEX p \<Longrightarrow> test URL_CASE_INSENSITIVE_REGEX p"
  by (simp add: test_def URL_CASE_SENSITIVE_REGEX_def URL_CASE_INSENSITIVE_REGEX_def search_ci)

lemma match_here_prefix: "match_here False pat s \<longleftrightarrow> (\<exists>post. s = pat @ post)"
  by (induction False pat s rule: match_here.induct) auto

lemma search_substring: "search False pat s \<longleftrightarrow> (\<exists>pre post. s = pre @ pat @ post)"
proof (induction s)
  case Nil
  then show ?case by (auto simp: match_here_prefix)
next
  case (Cons c cs)
  show ?case
  proof
    assume "search False pat (c # cs)"
    then consider "match_here False pat (c # cs)" | "search False pat cs" by auto
    then show "\<exists>pre post. c # cs = pre @ pat @ post"
    proof cases
      case 1
      then obtain post where "c # cs = pat @ post" by (auto simp: match_here_prefix)
      then have "c # cs = [] @ pat @ post" by simp
      then show ?thesis by blast
    next
      case 2
      then obtain pre post where "cs = pre @ pat @ post" using Cons.IH by blast
      then have "c # cs = (c # pre) @ pat @ post" by simp
      then show ?thesis by blast
    qed
  next
    assume "\<exists>pre post. c # cs = pre @ pat @ post"
    then obtain pre post where eq: "c # cs = pre @ pat @ post" by blast
    show "search False pat (c # cs)"
    proof (cases pre)
      case Nil
      with eq have "match_here False pat (c # cs)" by (auto simp: match_here_prefix)
      then show ?thesis by simp
    next
      case (Cons a pre2)
      with eq have "cs = pre2 @ pat @ post" by simp
      then have "search False pat cs" using Cons.IH by blast
      then show ?thesis by simp
    qed
  qed
qed

lemmas regex_eval =
  test_def URL_CASE_SENSITIVE_REGEX_def URL_CASE_INSENSITIVE_REGEX_def canonicalize_def
  PROTECTED_ROUTE_def WHITELISTED_ROUTE_def

subsection \<open>The user table\<close>

lemma find_email: "find (\<lambda>u. email u = e) t = Some u \<Longrightarrow> email u = e \<and> u \<in> set t"
  by (induction t) (auto split: if_splits)

lemma find_None_iff_ex: "find (\<lambda>u. email u = e) t = None \<longleftrightarrow> \<not> list_ex (\<lambda>u. email u = e) t"
  by (auto simp: find_None_iff list_ex_iff)

lemma unique_emails_eq:
  "unique_emails t \<Longrightarrow> u \<in> set t \<Longrightarrow> v \<in> set t \<Longrightarrow> email u = email v \<Longrightarrow> u = v"
  unfolding unique_emails_def by (metis distinct_map inj_onD)

lemma unique_emails_filter:
  "unique_emails t \<Longrightarrow> u \<in> set t \<Longrightarrow> filter (\<lambda>v. email v = email u) t = [u]"
proof (induction t)
  case Nil
  then show ?case by simp
next
  case (Cons a t)
  show ?case
  proof (cases "a = u")
    case True
    have "email u \<notin> email ` set t" using Cons.prems True
      by (simp add: unique_emails_def)
    then have "\<forall>v\<in>set t. email v \<noteq> email u" by (metis imageI)
    then have "filter (\<lambda>v. email v = email u) t = []" by (auto simp: filter_empty_conv)
    with True show ?thesis by simp
  next
    case False
    then have "u \<in> set t" using Cons.prems by simp
    moreover have "unique_emails t" using Cons.prems by (simp add: unique_emails_def)
    moreover have "email a \<notin> email ` set t" using Cons.prems
      by (simp add: unique_emails_def)
    then have "email a \<noteq> email u" using \<open>u \<in> set t\<close> by (metis imageI)
    ultimately show ?thesis using Cons.IH by simp
  qed
qed

lemma unique_emails_find:
  assumes "unique_emails t" and "u \<in> set t"
  shows "find (\<lambda>v. email v = email u) t = Some u"
proof -
  obtain w where w: "find (\<lambda>v. email v = email u) t = Some w"
    using assms(2) by (cases "find (\<lambda>v. email v = email u) t") (auto simp: find_None_iff)
  then have "email w = email u \<and> w \<in> set t" by (rule find_email)
  with assms have "w = u" by (metis unique_emails_eq)
  with w show ?thesis by simp
qed

lemma unique_emails_snoc:
  "unique_emails t \<Longrightarrow> \<not> list_ex (\<lambda>v. email v = email u) t \<Longrightarrow> unique_emails (t @ [u])"
  by (auto simp: unique_emails_def list_ex_iff)

lemma save_unique:
  "unique_emails t \<Longrightarrow> save env t e = Inr (u, t2) \<Longrightarrow>
     unique_emails t2 \<and> t2 = t @ [u] \<and> email u = e"
  by (auto simp: save_def Let_def unique_emails_def list_ex_iff split: if_splits)

lemma findOrCreate_email:
  "findOrCreateUserByEmail env t e = (Inr u, t2) \<Longrightarrow> email u = e"
  by (auto simp: findOrCreateUserByEmail_def findOneBy_def save_def Let_def
      dest: find_email split: if_splits option.splits)

lemma findOrCreate_failure_table:
  "findOrCreateUserByEmail env t e = (Inl err, t2) \<Longrightarrow> t2 = t"
  by (auto simp: findOrCreateUserByEmail_def findOneBy_def save_def Let_def
      split: if_splits option.splits)

text \<open>
  With the answers one storage layer gives on one table, back to back, the function cut
  open at its awaits returns what the sequential function returns.
\<close>

lemma awaits_sequential:
  "fst (findOrCreateUserByEmail_awaits (findOneBy env t e) (map_sum id fst (save env t e)) e) =
   fst (findOrCreateUserByEmail env t e)"
  by (auto simp: findOrCreateUserByEmail_awaits_def findOrCreateUserByEmail_def
      split: sum.splits option.splits prod.splits)

section \<open>The gate\<close>

text \<open>
  C1. A request for a path that matches \<^verbatim>\<open>/api/v1/\<close> case-sensitively and has no
  whitelisted prefix, with a non-empty \<^verbatim>\<open>X-Forwarded-Email\<close> header \<open>e\<close>, for which
  the identity store returns a row \<open>u\<close>: the gate calls \<^verbatim>\<open>findOrCreateUserByEmail\<close>
  exactly once, with \<open>e\<close>, calls \<^verbatim>\<open>next()\<close>, and sets \<^verbatim>\<open>req.user\<close> to an identity
  with the row's id, the email \<open>e\<close>, \<^verbatim>\<open>isAuthenticatedByHeader\<close> true, and every
  organization, workspace, role and permission field empty, false or undefined.
\<close>

theorem forwarded_email_allows_with_identity:
  assumes "test URL_CASE_SENSITIVE_REGEX (path req)"
    and "\<not> list_ex (\<lambda>url. startsWith (path req) url) whitelistURLs"
    and "headers req ''x-forwarded-email'' = Some e" and "e \<noteq> []"
    and "findOrCreateUserByEmail env db e = (Inr u, db2)"
  shows "middleware whitelistURLs env db req =
     \<lparr>sent = Next,
      req' = req\<lparr>user := Some
        \<lparr>User.id' = FlowiseUser.id' u, User.email = e, isAuthenticatedByHeader = Some True,
         name = e, roleId = [], activeOrganizationId = [],
         activeOrganizationSubscriptionId = [], activeOrganizationCustomerId = [],
         activeOrganizationProductId = [], isOrganizationAdmin = False,
         activeWorkspaceId = [], activeWorkspace = [], assignedWorkspaces = [],
         isApiKeyValidated = False, permissions = [], features = Map.empty,
         ssoRefreshToken = None, ssoToken = None, ssoProvider = None\<rparr>\<rparr>,
      db' = db2,
      calls = [FindOrCreateUserByEmail e]\<rparr>"
  using assms cs_imp_ci [OF assms(1)] findOrCreate_email [OF assms(5)]
  by (simp add: middleware_def loggedInUserShape_def)

text \<open>
  The first test of the suite: \<^verbatim>\<open>/api/v1/chatflows\<close> with the email of a user the
  table does not have yet.
\<close>

theorem forwarded_email_allows_with_identity_witness:
  "test URL_CASE_SENSITIVE_REGEX PROTECTED_ROUTE
   \<and> \<not> list_ex (\<lambda>url. startsWith PROTECTED_ROUTE url) [WHITELISTED_ROUTE]
   \<and> NEW_USER_EMAIL \<noteq> []
   \<and> findOrCreateUserByEmail working_db [] NEW_USER_EMAIL = (Inr new_user_row, [new_user_row])
   \<and> sent (middleware [WHITELISTED_ROUTE] working_db []
        (forwarded_request PROTECTED_ROUTE NEW_USER_EMAIL)) = Next
   \<and> calls (middleware [WHITELISTED_ROUTE] working_db []
        (forwarded_request PROTECTED_ROUTE NEW_USER_EMAIL)) =
       [FindOrCreateUserByEmail NEW_USER_EMAIL]
   \<and> db' (middleware [WHITELISTED_ROUTE] working_db []
        (forwarded_request PROTECTED_ROUTE NEW_USER_EMAIL)) = [new_user_row]
   \<and> map_option User.email (user (req' (middleware [WHITELISTED_ROUTE] working_db []
        (forwarded_request PROTECTED_ROUTE NEW_USER_EMAIL)))) = Some NEW_USER_EMAIL"
proof -
  have h1: "test URL_CASE_SENSITIVE_REGEX (path (forwarded_request PROTECTED_ROUTE NEW_USER_EMAIL))"
    by (simp add: forwarded_request_def regex_eval)
  have h2: "\<not> list_ex (\<lambda>url. startsWith (path (forwarded_request PROTECTED_ROUTE NEW_USER_EMAIL)) url)
      [WHITELISTED_ROUTE]"
    by (simp add: forwarded_request_def regex_eval)
  have h3: "headers (forwarded_request PROTECTED_ROUTE NEW_USER_EMAIL) ''x-forwarded-email'' =
      Some NEW_USER_EMAIL"
    by (simp add: forwarded_request_def)
  have h4: "NEW_USER_EMAIL \<noteq> []" by (simp add: NEW_USER_EMAIL_def)
  have h5: "findOrCreateUserByEmail working_db [] NEW_USER_EMAIL = (Inr new_user_row, [new_user_row])"
    by (simp add: findOrCreateUserByEmail_def findOneBy_def save_def working_db_def
        new_user_row_def Let_def)
  from forwarded_email_allows_with_identity [OF h1 h2 h3 h4 h5] h1 h2 h4 h5
  show ?thesis by (simp add: forwarded_request_def)
qed

text \<open>
  C4. A request for a path that matches \<^verbatim>\<open>/api/v1/\<close> case-sensitively and has no
  whitelisted prefix, whose \<^verbatim>\<open>X-Forwarded-Email\<close> header is absent or empty, is answered
  with status 401 and the error message
  \<^verbatim>\<open>Unauthorized: X-Forwarded-Email header is required\<close>; the identity store is not
  called, the table and the request are unchanged.
\<close>

theorem missing_header_denied:
  assumes "test URL_CASE_SENSITIVE_REGEX (path req)"
    and "\<not> list_ex (\<lambda>url. startsWith (path req) url) whitelistURLs"
    and "headers req ''x-forwarded-email'' = None \<or> headers req ''x-forwarded-email'' = Some []"
  shows "middleware whitelistURLs env db req =
     \<lparr>sent = StatusJson 401 ''Unauthorized: X-Forwarded-Email header is required'',
      req' = req, db' = db, calls = []\<rparr>"
  using assms cs_imp_ci [OF assms(1)] by (auto simp: middleware_def)

theorem missing_header_denied_witness:
  "test URL_CASE_SENSITIVE_REGEX PROTECTED_ROUTE
   \<and> \<not> list_ex (\<lambda>url. startsWith PROTECTED_ROUTE url) [WHITELISTED_ROUTE]
   \<and> headers (bare_request PROTECTED_ROUTE) ''x-forwarded-email'' = None
   \<and> middleware [WHITELISTED_ROUTE] working_db [] (bare_request PROTECTED_ROUTE) =
       \<lparr>sent = StatusJson 401 ''Unauthorized: X-Forwarded-Email header is required'',
        req' = bare_request PROTECTED_ROUTE, db' = [], calls = []\<rparr>"
proof -
  have h1: "test URL_CASE_SENSITIVE_REGEX (path (bare_request PROTECTED_ROUTE))"
    by (simp add: bare_request_def regex_eval)
  have h2: "\<not> list_ex (\<lambda>url. startsWith (path (bare_request PROTECTED_ROUTE)) url) [WHITELISTED_ROUTE]"
    by (simp add: bare_request_def regex_eval)
  have h3: "headers (bare_request PROTECTED_ROUTE) ''x-forwarded-email'' = None
      \<or> headers (bare_request PROTECTED_ROUTE) ''x-forwarded-email'' = Some []"
    by (simp add: bare_request_def)
  from missing_header_denied [OF h1 h2 h3] h1 h2 show ?thesis
    by (simp add: bare_request_def)
qed

text \<open>
  C6. A request whose path matches the pattern case-insensitively and not
  case-sensitively is answered with status 401 and the error message
  \<^verbatim>\<open>Unauthorized Access - Invalid Path Structure\<close>, which is not the answer to a missing
  header; no header is read, the identity store is not called, the table and the request
  are unchanged.
\<close>

theorem case_mismatch_denied:
  assumes "test URL_CASE_INSENSITIVE_REGEX (path req)"
    and "\<not> test URL_CASE_SENSITIVE_REGEX (path req)"
  shows "middleware whitelistURLs env db req =
       \<lparr>sent = StatusJson 401 ''Unauthorized Access - Invalid Path Structure'',
        req' = req, db' = db, calls = []\<rparr>
     \<and> sent (middleware whitelistURLs env db req) \<noteq>
         StatusJson 401 ''Unauthorized: X-Forwarded-Email header is required''"
  using assms by (simp add: middleware_def)

theorem case_mismatch_denied_witness:
  "test URL_CASE_INSENSITIVE_REGEX ''/API/v1/chatflows''
   \<and> \<not> test URL_CASE_SENSITIVE_REGEX ''/API/v1/chatflows''
   \<and> middleware [WHITELISTED_ROUTE] working_db []
        (forwarded_request ''/API/v1/chatflows'' NEW_USER_EMAIL) =
       \<lparr>sent = StatusJson 401 ''Unauthorized Access - Invalid Path Structure'',
        req' = forwarded_request ''/API/v1/chatflows'' NEW_USER_EMAIL, db' = [], calls = []\<rparr>"
proof -
  have h1: "test URL_CASE_INSENSITIVE_REGEX
      (path (forwarded_request ''/API/v1/chatflows'' NEW_USER_EMAIL))"
    by (simp add: forwarded_request_def regex_eval)
  have h2: "\<not> test URL_CASE_SENSITIVE_REGEX
      (path (forwarded_request ''/API/v1/chatflows'' NEW_USER_EMAIL))"
    by (simp add: forwarded_request_def regex_eval)
  from case_mismatch_denied [OF h1 h2] h1 h2 show ?thesis
    by (simp add: forwarded_request_def)
qed

text \<open>
  C7. A request for a path that matches \<^verbatim>\<open>/api/v1/\<close> case-sensitively and has no
  whitelisted prefix, with a non-empty \<^verbatim>\<open>X-Forwarded-Email\<close> header, for which the call
  of the identity store fails: the answer is status 500 with the error message
  \<^verbatim>\<open>Internal Server Error during authentication\<close>; the store was called once and not
  again (the only other call logs the error), and the request, with its \<^verbatim>\<open>req.user\<close>,
  and the table are as they were.
\<close>

theorem store_failure_is_500:
  assumes "test URL_CASE_SENSITIVE_REGEX (path req)"
    and "\<not> list_ex (\<lambda>url. startsWith (path req) url) whitelistURLs"
    and "headers req ''x-forwarded-email'' = Some e" and "e \<noteq> []"
    and "fst (findOrCreateUserByEmail env db e) = Inl err"
  shows "middleware whitelistURLs env db req =
     \<lparr>sent = StatusJson 500 ''Internal Server Error during authentication'',
      req' = req, db' = db,
      calls = [FindOrCreateUserByEmail e, LoggerError err]\<rparr>"
proof -
  obtain t2 where r: "findOrCreateUserByEmail env db e = (Inl err, t2)"
    using assms(5) by (cases "findOrCreateUserByEmail env db e") auto
  then have "t2 = db" by (rule findOrCreate_failure_table)
  with r assms cs_imp_ci [OF assms(1)] show ?thesis
    by (simp add: middleware_def)
qed

theorem store_failure_is_500_witness:
  "test URL_CASE_SENSITIVE_REGEX PROTECTED_ROUTE
   \<and> \<not> list_ex (\<lambda>url. startsWith PROTECTED_ROUTE url) [WHITELISTED_ROUTE]
   \<and> NEW_USER_EMAIL \<noteq> []
   \<and> fst (findOrCreateUserByEmail broken_db [] NEW_USER_EMAIL) = Inl StorageFailure
   \<and> middleware [WHITELISTED_ROUTE] broken_db []
        (forwarded_request PROTECTED_ROUTE NEW_USER_EMAIL) =
       \<lparr>sent = StatusJson 500 ''Internal Server Error during authentication'',
        req' = forwarded_request PROTECTED_ROUTE NEW_USER_EMAIL, db' = [],
        calls = [FindOrCreateUserByEmail NEW_USER_EMAIL, LoggerError StorageFailure]\<rparr>"
proof -
  have h1: "test URL_CASE_SENSITIVE_REGEX (path (forwarded_request PROTECTED_ROUTE NEW_USER_EMAIL))"
    by (simp add: forwarded_request_def regex_eval)
  have h2: "\<not> list_ex (\<lambda>url. startsWith (path (forwarded_request PROTECTED_ROUTE NEW_USER_EMAIL)) url)
      [WHITELISTED_ROUTE]"
    by (simp add: forwarded_request_def regex_eval)
  have h3: "headers (forwarded_request PROTECTED_ROUTE NEW_USER_EMAIL) ''x-forwarded-email'' =
      Some NEW_USER_EMAIL"
    by (simp add: forwarded_request_def)
  have h4: "NEW_USER_EMAIL \<noteq> []" by (simp add: NEW_USER_EMAIL_def)
  have h5: "fst (findOrCreateUserByEmail broken_db [] NEW_USER_EMAIL) = Inl StorageFailure"
    by (simp add: findOrCreateUserByEmail_def findOneBy_def broken_db_def)
  from store_failure_is_500 [OF h1 h2 h3 h4 h5] h1 h2 h4 h5
  show ?thesis by (simp add: forwarded_request_def)
qed

text \<open>
  C8. A request whose path does not match the pattern (the gate's first,
  case-insensitive test fails), and a request whose path matches it case-sensitively and
  starts with a whitelisted prefix, go on to \<^verbatim>\<open>next()\<close> with the request as it came:
  the identity store is not called and the table is unchanged.
\<close>

theorem out_of_scope_or_whitelisted_allowed:
  assumes "\<not> test URL_CASE_INSENSITIVE_REGEX (path req) \<or>
     (test URL_CASE_SENSITIVE_REGEX (path req) \<and>
      list_ex (\<lambda>url. startsWith (path req) url) whitelistURLs)"
  shows "middleware whitelistURLs env db req =
     \<lparr>sent = Next, req' = req, db' = db, calls = []\<rparr>"
  using assms cs_imp_ci by (auto simp: middleware_def)

theorem out_of_scope_or_whitelisted_allowed_witness:
  "\<not> test URL_CASE_INSENSITIVE_REGEX ''/assets/logo.png''
   \<and> middleware [WHITELISTED_ROUTE] working_db [] (bare_request ''/assets/logo.png'') =
       \<lparr>sent = Next, req' = bare_request ''/assets/logo.png'', db' = [], calls = []\<rparr>
   \<and> test URL_CASE_SENSITIVE_REGEX WHITELISTED_ROUTE
   \<and> list_ex (\<lambda>url. startsWith WHITELISTED_ROUTE url) [WHITELISTED_ROUTE]
   \<and> middleware [WHITELISTED_ROUTE] working_db [] (bare_request WHITELISTED_ROUTE) =
       \<lparr>sent = Next, req' = bare_request WHITELISTED_ROUTE, db' = [], calls = []\<rparr>"
proof -
  have h1: "\<not> test URL_CASE_INSENSITIVE_REGEX (path (bare_request ''/assets/logo.png''))"
    by (simp add: bare_request_def regex_eval)
  have h2: "test URL_CASE_SENSITIVE_REGEX (path (bare_request WHITELISTED_ROUTE))
      \<and> list_ex (\<lambda>url. startsWith (path (bare_request WHITELISTED_ROUTE)) url) [WHITELISTED_ROUTE]"
    by (simp add: bare_request_def regex_eval)
  from out_of_scope_or_whitelisted_allowed [OF disjI1, OF h1]
    out_of_scope_or_whitelisted_allowed [OF disjI2, OF h2] h1 h2
  show ?thesis by (simp add: bare_request_def)
qed

text \<open>
  C5. The gate never reads the \<^verbatim>\<open>Authorization\<close> header: two requests that differ
  only in that header (any value, or none) get the same answer, the same \<^verbatim>\<open>req.user\<close>,
  the same table and the same calls, whatever the path and the other headers are, so in
  particular on a protected path with a forwarded email. No call of the gate is a key
  validation.
\<close>

theorem authorization_header_ignored:
  "sent (middleware whitelistURLs env db (req\<lparr>headers := (headers req)(''authorization'' := a)\<rparr>)) =
     sent (middleware whitelistURLs env db req)
   \<and> user (req' (middleware whitelistURLs env db
        (req\<lparr>headers := (headers req)(''authorization'' := a)\<rparr>))) =
     user (req' (middleware whitelistURLs env db req))
   \<and> db' (middleware whitelistURLs env db (req\<lparr>headers := (headers req)(''authorization'' := a)\<rparr>)) =
     db' (middleware whitelistURLs env db req)
   \<and> calls (middleware whitelistURLs env db (req\<lparr>headers := (headers req)(''authorization'' := a)\<rparr>)) =
     calls (middleware whitelistURLs env db req)
   \<and> ValidateAPIKey \<notin> set (calls (middleware whitelistURLs env db req))"
  by (auto simp: middleware_def split: option.splits sum.splits prod.splits)

text \<open>
  The fifth test of the older suite: the forwarded email and a bearer token together, on
  the protected route.
\<close>

theorem authorization_header_ignored_witness:
  "sent (middleware [WHITELISTED_ROUTE] working_db []
       ((forwarded_request PROTECTED_ROUTE NEW_USER_EMAIL)
          \<lparr>headers := (headers (forwarded_request PROTECTED_ROUTE NEW_USER_EMAIL))
             (''authorization'' := Some ''Bearer valid-api-key'')\<rparr>)) = Next
   \<and> calls (middleware [WHITELISTED_ROUTE] working_db []
       ((forwarded_request PROTECTED_ROUTE NEW_USER_EMAIL)
          \<lparr>headers := (headers (forwarded_request PROTECTED_ROUTE NEW_USER_EMAIL))
             (''authorization'' := Some ''Bearer valid-api-key'')\<rparr>)) =
       [FindOrCreateUserByEmail NEW_USER_EMAIL]"
proof -
  have "sent (middleware [WHITELISTED_ROUTE] working_db []
      (forwarded_request PROTECTED_ROUTE NEW_USER_EMAIL)) = Next
    \<and> calls (middleware [WHITELISTED_ROUTE] working_db []
      (forwarded_request PROTECTED_ROUTE NEW_USER_EMAIL)) =
       [FindOrCreateUserByEmail NEW_USER_EMAIL]"
    by (simp add: middleware_def forwarded_request_def regex_eval NEW_USER_EMAIL_def
        findOrCreateUserByEmail_def findOneBy_def save_def working_db_def Let_def)
  with authorization_header_ignored [of "[WHITELISTED_ROUTE]" working_db "[]"
      "forwarded_request PROTECTED_ROUTE NEW_USER_EMAIL" "Some ''Bearer valid-api-key''"]
  show ?thesis by simp
qed

text \<open>
  C9, as the gate has it. The identity is attached exactly on the allow that follows a
  successful call of the identity store: when the gate answers with an error, and when it
  calls \<^verbatim>\<open>next()\<close> without having called the store (a path that is not in scope or is
  whitelisted), the request leaves as it came, \<^verbatim>\<open>req.user\<close> included; when it calls
  \<^verbatim>\<open>next()\<close> after calling the store, the store returned a row for the forwarded email
  and \<^verbatim>\<open>req.user\<close> is the identity built from that row.
\<close>

theorem identity_attached_iff_allow_with_identity:
  "(sent (middleware whitelistURLs env db req) \<noteq> Next \<longrightarrow>
      req' (middleware whitelistURLs env db req) = req)
   \<and> (sent (middleware whitelistURLs env db req) = Next \<and>
      calls (middleware whitelistURLs env db req) = [] \<longrightarrow>
      req' (middleware whitelistURLs env db req) = req)
   \<and> (sent (middleware whitelistURLs env db req) = Next \<and>
      calls (middleware whitelistURLs env db req) \<noteq> [] \<longrightarrow>
      (\<exists>e u. headers req ''x-forwarded-email'' = Some e \<and>
         calls (middleware whitelistURLs env db req) = [FindOrCreateUserByEmail e] \<and>
         findOrCreateUserByEmail env db e =
           (Inr u, db' (middleware whitelistURLs env db req)) \<and>
         req' (middleware whitelistURLs env db req) =
           req\<lparr>user := Some (loggedInUserShape u)\<rparr>))"
  by (auto simp: middleware_def split: option.splits sum.splits prod.splits)

theorem identity_attached_iff_allow_with_identity_witness:
  "sent (middleware [WHITELISTED_ROUTE] working_db [] (bare_request PROTECTED_ROUTE)) \<noteq> Next
   \<and> req' (middleware [WHITELISTED_ROUTE] working_db [] (bare_request PROTECTED_ROUTE)) =
       bare_request PROTECTED_ROUTE
   \<and> sent (middleware [WHITELISTED_ROUTE] working_db [] (bare_request WHITELISTED_ROUTE)) = Next
   \<and> calls (middleware [WHITELISTED_ROUTE] working_db [] (bare_request WHITELISTED_ROUTE)) = []
   \<and> req' (middleware [WHITELISTED_ROUTE] working_db [] (bare_request WHITELISTED_ROUTE)) =
       bare_request WHITELISTED_ROUTE
   \<and> sent (middleware [WHITELISTED_ROUTE] working_db []
        (forwarded_request PROTECTED_ROUTE NEW_USER_EMAIL)) = Next
   \<and> calls (middleware [WHITELISTED_ROUTE] working_db []
        (forwarded_request PROTECTED_ROUTE NEW_USER_EMAIL)) \<noteq> []
   \<and> (\<exists>u. req' (middleware [WHITELISTED_ROUTE] working_db []
        (forwarded_request PROTECTED_ROUTE NEW_USER_EMAIL)) =
       (forwarded_request PROTECTED_ROUTE NEW_USER_EMAIL)\<lparr>user := Some (loggedInUserShape u)\<rparr>)"
proof -
  have d: "sent (middleware [WHITELISTED_ROUTE] working_db [] (bare_request PROTECTED_ROUTE)) \<noteq> Next"
    by (simp add: middleware_def bare_request_def regex_eval)
  have w: "sent (middleware [WHITELISTED_ROUTE] working_db [] (bare_request WHITELISTED_ROUTE)) = Next
      \<and> calls (middleware [WHITELISTED_ROUTE] working_db [] (bare_request WHITELISTED_ROUTE)) = []"
    by (simp add: middleware_def bare_request_def regex_eval)
  have a: "sent (middleware [WHITELISTED_ROUTE] working_db []
        (forwarded_request PROTECTED_ROUTE NEW_USER_EMAIL)) = Next
      \<and> calls (middleware [WHITELISTED_ROUTE] working_db []
        (forwarded_request PROTECTED_ROUTE NEW_USER_EMAIL)) \<noteq> []"
    by (simp add: middleware_def forwarded_request_def regex_eval NEW_USER_EMAIL_def
        findOrCreateUserByEmail_def findOneBy_def save_def working_db_def Let_def)
  from identity_attached_iff_allow_with_identity
      [of "[WHITELISTED_ROUTE]" working_db "[]" "bare_request PROTECTED_ROUTE"] d
  have 1: "req' (middleware [WHITELISTED_ROUTE] working_db [] (bare_request PROTECTED_ROUTE)) =
       bare_request PROTECTED_ROUTE" by blast
  from identity_attached_iff_allow_with_identity
      [of "[WHITELISTED_ROUTE]" working_db "[]" "bare_request WHITELISTED_ROUTE"] w
  have 2: "req' (middleware [WHITELISTED_ROUTE] working_db [] (bare_request WHITELISTED_ROUTE)) =
       bare_request WHITELISTED_ROUTE" by blast
  from identity_attached_iff_allow_with_identity
      [of "[WHITELISTED_ROUTE]" working_db "[]" "forwarded_request PROTECTED_ROUTE NEW_USER_EMAIL"] a
  have 3: "\<exists>u. req' (middleware [WHITELISTED_ROUTE] working_db []
        (forwarded_request PROTECTED_ROUTE NEW_USER_EMAIL)) =
       (forwarded_request PROTECTED_ROUTE NEW_USER_EMAIL)\<lparr>user := Some (loggedInUserShape u)\<rparr>"
    by blast
  from d w a 1 2 3 show ?thesis by blast
qed

text \<open>
  C9 as it is stated fails on the anonymous allows: the gate reaches an allow decision
  for \<^verbatim>\<open>/assets/logo.png\<close> and attaches no identity.
\<close>

theorem anonymous_allow_attaches_nothing:
  "sent (middleware [WHITELISTED_ROUTE] working_db [] (bare_request ''/assets/logo.png'')) = Next
   \<and> user (req' (middleware [WHITELISTED_ROUTE] working_db []
        (bare_request ''/assets/logo.png''))) = None"
  by (simp add: middleware_def bare_request_def regex_eval)

text \<open>
  C10, as the gate has it. The case-sensitive test is containment of \<^verbatim>\<open>/api/v1/\<close>
  anywhere in the path. A request for a path that contains it and has no whitelisted
  prefix meets the credential check: it is denied for the missing header, or the identity
  store is called with the forwarded email. The path \<^verbatim>\<open>/api/v1\<close> without the slash
  goes on to \<^verbatim>\<open>next()\<close> with no call, whatever the whitelist and the headers are.
\<close>

theorem in_scope_is_substring_containment:
  "(test URL_CASE_SENSITIVE_REGEX p \<longleftrightarrow> (\<exists>pre post. p = pre @ ''/api/v1/'' @ post))
   \<and> (path req = pre @ ''/api/v1/'' @ post \<and>
      \<not> list_ex (\<lambda>url. startsWith (path req) url) whitelistURLs \<longrightarrow>
        (case headers req ''x-forwarded-email'' of
           None \<Rightarrow> middleware whitelistURLs env db req =
             \<lparr>sent = StatusJson 401 ''Unauthorized: X-Forwarded-Email header is required'',
              req' = req, db' = db, calls = []\<rparr>
         | Some e \<Rightarrow>
             if e = [] then middleware whitelistURLs env db req =
               \<lparr>sent = StatusJson 401 ''Unauthorized: X-Forwarded-Email header is required'',
                req' = req, db' = db, calls = []\<rparr>
             else take 1 (calls (middleware whitelistURLs env db req)) =
               [FindOrCreateUserByEmail e]))
   \<and> (path req = ''/api/v1'' \<longrightarrow>
        middleware whitelistURLs env db req =
          \<lparr>sent = Next, req' = req, db' = db, calls = []\<rparr>)"
proof (intro conjI impI)
  show "test URL_CASE_SENSITIVE_REGEX p \<longleftrightarrow> (\<exists>pre post. p = pre @ ''/api/v1/'' @ post)"
    by (simp add: test_def URL_CASE_SENSITIVE_REGEX_def search_substring)
next
  assume a: "path req = pre @ ''/api/v1/'' @ post \<and>
      \<not> list_ex (\<lambda>url. startsWith (path req) url) whitelistURLs"
  then have "search False ''/api/v1/'' (path req)"
    unfolding search_substring by blast
  then have cs: "test URL_CASE_SENSITIVE_REGEX (path req)"
    by (simp add: test_def URL_CASE_SENSITIVE_REGEX_def)
  from a cs cs_imp_ci [OF cs]
  show "case headers req ''x-forwarded-email'' of
           None \<Rightarrow> middleware whitelistURLs env db req =
             \<lparr>sent = StatusJson 401 ''Unauthorized: X-Forwarded-Email header is required'',
              req' = req, db' = db, calls = []\<rparr>
         | Some e \<Rightarrow>
             if e = [] then middleware whitelistURLs env db req =
               \<lparr>sent = StatusJson 401 ''Unauthorized: X-Forwarded-Email header is required'',
                req' = req, db' = db, calls = []\<rparr>
             else take 1 (calls (middleware whitelistURLs env db req)) =
               [FindOrCreateUserByEmail e]"
    by (auto simp: middleware_def split: option.splits sum.splits prod.splits)
next
  assume "path req = ''/api/v1''"
  then have "\<not> test URL_CASE_INSENSITIVE_REGEX (path req)"
    by (simp add: regex_eval)
  then show "middleware whitelistURLs env db req =
      \<lparr>sent = Next, req' = req, db' = db, calls = []\<rparr>"
    by (simp add: middleware_def)
qed

theorem in_scope_is_substring_containment_witness:
  "test URL_CASE_SENSITIVE_REGEX ''/foo/api/v1/bar''
   \<and> path (bare_request ''/foo/api/v1/bar'') = ''/foo'' @ ''/api/v1/'' @ ''bar''
   \<and> \<not> list_ex (\<lambda>url. startsWith (path (bare_request ''/foo/api/v1/bar'')) url) [WHITELISTED_ROUTE]
   \<and> middleware [WHITELISTED_ROUTE] working_db [] (bare_request ''/foo/api/v1/bar'') =
       \<lparr>sent = StatusJson 401 ''Unauthorized: X-Forwarded-Email header is required'',
        req' = bare_request ''/foo/api/v1/bar'', db' = [], calls = []\<rparr>
   \<and> middleware [WHITELISTED_ROUTE] working_db [] (forwarded_request ''/api/v1'' NEW_USER_EMAIL) =
       \<lparr>sent = Next, req' = forwarded_request ''/api/v1'' NEW_USER_EMAIL, db' = [], calls = []\<rparr>"
proof -
  have h1: "path (bare_request ''/foo/api/v1/bar'') = ''/foo'' @ ''/api/v1/'' @ ''bar''"
    by (simp add: bare_request_def)
  have h2: "\<not> list_ex (\<lambda>url. startsWith (path (bare_request ''/foo/api/v1/bar'')) url)
      [WHITELISTED_ROUTE]"
    by (simp add: bare_request_def regex_eval)
  have h3: "headers (bare_request ''/foo/api/v1/bar'') ''x-forwarded-email'' = None"
    by (simp add: bare_request_def)
  have h4: "path (forwarded_request ''/api/v1'' NEW_USER_EMAIL) = ''/api/v1''"
    by (simp add: forwarded_request_def)
  have h5: "''/foo/api/v1/bar'' = ''/foo'' @ ''/api/v1/'' @ ''bar''" by simp
  note T = in_scope_is_substring_containment
      [of "''/foo/api/v1/bar''" "bare_request ''/foo/api/v1/bar''" "''/foo''" "''bar''"
        "[WHITELISTED_ROUTE]" working_db "[]"]
  from T h5 have t1: "test URL_CASE_SENSITIVE_REGEX ''/foo/api/v1/bar''" by blast
  from T h1 h2
  have "case headers (bare_request ''/foo/api/v1/bar'') ''x-forwarded-email'' of
           None \<Rightarrow> middleware [WHITELISTED_ROUTE] working_db [] (bare_request ''/foo/api/v1/bar'') =
             \<lparr>sent = StatusJson 401 ''Unauthorized: X-Forwarded-Email header is required'',
              req' = bare_request ''/foo/api/v1/bar'', db' = [], calls = []\<rparr>
         | Some e \<Rightarrow>
             if e = [] then middleware [WHITELISTED_ROUTE] working_db []
                 (bare_request ''/foo/api/v1/bar'') =
               \<lparr>sent = StatusJson 401 ''Unauthorized: X-Forwarded-Email header is required'',
                req' = bare_request ''/foo/api/v1/bar'', db' = [], calls = []\<rparr>
             else take 1 (calls (middleware [WHITELISTED_ROUTE] working_db []
                 (bare_request ''/foo/api/v1/bar''))) = [FindOrCreateUserByEmail e]"
    by blast
  with h3 t1
  have 1: "test URL_CASE_SENSITIVE_REGEX ''/foo/api/v1/bar''
     \<and> middleware [WHITELISTED_ROUTE] working_db [] (bare_request ''/foo/api/v1/bar'') =
       \<lparr>sent = StatusJson 401 ''Unauthorized: X-Forwarded-Email header is required'',
        req' = bare_request ''/foo/api/v1/bar'', db' = [], calls = []\<rparr>"
    by simp
  from in_scope_is_substring_containment
      [of "''/foo/api/v1/bar''" "forwarded_request ''/api/v1'' NEW_USER_EMAIL" "''/foo''" "''bar''"
        "[WHITELISTED_ROUTE]" working_db "[]"] h4
  have 2: "middleware [WHITELISTED_ROUTE] working_db [] (forwarded_request ''/api/v1'' NEW_USER_EMAIL) =
       \<lparr>sent = Next, req' = forwarded_request ''/api/v1'' NEW_USER_EMAIL, db' = [], calls = []\<rparr>"
    by blast
  from 1 2 h1 h2 show ?thesis by blast
qed

text \<open>
  C10 as it is stated fails on the whitelist: \<^verbatim>\<open>/api/v1/marketplaces/chatflows\<close>
  contains \<^verbatim>\<open>/api/v1/\<close>, and with that route whitelisted a request without any
  credential is let through and no credential check is made.
\<close>

theorem whitelisted_in_scope_path_skips_credentials:
  "test URL_CASE_SENSITIVE_REGEX WHITELISTED_ROUTE
   \<and> headers (bare_request WHITELISTED_ROUTE) ''x-forwarded-email'' = None
   \<and> middleware [WHITELISTED_ROUTE] working_db [] (bare_request WHITELISTED_ROUTE) =
       \<lparr>sent = Next, req' = bare_request WHITELISTED_ROUTE, db' = [], calls = []\<rparr>"
  by (simp add: middleware_def bare_request_def regex_eval)

section \<open>The identity store\<close>

subsection \<open>Resolve or provision\<close>

text \<open>
  C3. \<^verbatim>\<open>findOrCreateUserByEmail\<close> over the table, the storage layer not failing. When
  a row with the email is in a table with one row per email, the call returns that row
  and the table is the same table: nothing is created, no field is written. When no row
  has the email, the call appends exactly one row, with that email, and returns it. Two
  calls in sequence with the same email return the same row, so the same id, the second
  one changes nothing, and the table has exactly one row with that email and still one
  row per email.
\<close>

theorem findOrCreateUserByEmail_idempotent:
  "(\<not> find_fails env \<and> unique_emails t \<and> u \<in> set t \<and> email u = e \<longrightarrow>
      findOrCreateUserByEmail env t e = (Inr u, t))
   \<and> (\<not> find_fails env \<and> \<not> save_fails env \<and> \<not> list_ex (\<lambda>v. email v = e) t \<longrightarrow>
      findOrCreateUserByEmail env t e =
        (Inr \<lparr>id' = uuid env, email = e, createdDate = now env, updatedDate = now env\<rparr>,
         t @ [\<lparr>id' = uuid env, email = e, createdDate = now env, updatedDate = now env\<rparr>]))
   \<and> (\<not> find_fails env \<and> \<not> save_fails env \<and> \<not> find_fails env2 \<and> unique_emails t \<longrightarrow>
      (\<exists>v t1. findOrCreateUserByEmail env t e = (Inr v, t1) \<and>
         findOrCreateUserByEmail env2 t1 e = (Inr v, t1) \<and>
         unique_emails t1 \<and> filter (\<lambda>w. email w = e) t1 = [v]))"
proof (intro conjI impI)
  assume a: "\<not> find_fails env \<and> unique_emails t \<and> u \<in> set t \<and> email u = e"
  then have "find (\<lambda>v. email v = e) t = Some u" using unique_emails_find by blast
  with a show "findOrCreateUserByEmail env t e = (Inr u, t)"
    by (simp add: findOrCreateUserByEmail_def findOneBy_def)
next
  assume a: "\<not> find_fails env \<and> \<not> save_fails env \<and> \<not> list_ex (\<lambda>v. email v = e) t"
  then have "find (\<lambda>v. email v = e) t = None" by (simp add: find_None_iff_ex)
  with a show "findOrCreateUserByEmail env t e =
        (Inr \<lparr>id' = uuid env, email = e, createdDate = now env, updatedDate = now env\<rparr>,
         t @ [\<lparr>id' = uuid env, email = e, createdDate = now env, updatedDate = now env\<rparr>])"
    by (simp add: findOrCreateUserByEmail_def findOneBy_def save_def Let_def)
next
  assume a: "\<not> find_fails env \<and> \<not> save_fails env \<and> \<not> find_fails env2 \<and> unique_emails t"
  show "\<exists>v t1. findOrCreateUserByEmail env t e = (Inr v, t1) \<and>
         findOrCreateUserByEmail env2 t1 e = (Inr v, t1) \<and>
         unique_emails t1 \<and> filter (\<lambda>w. email w = e) t1 = [v]"
  proof (cases "find (\<lambda>v. email v = e) t")
    case None
    let ?n = "\<lparr>id' = uuid env, email = e, createdDate = now env, updatedDate = now env\<rparr>"
    from None have nx: "\<not> list_ex (\<lambda>v. email v = e) t" by (simp add: find_None_iff_ex)
    with None a have 1: "findOrCreateUserByEmail env t e = (Inr ?n, t @ [?n])"
      by (simp add: findOrCreateUserByEmail_def findOneBy_def save_def Let_def)
    have u1: "unique_emails (t @ [?n])" using a nx by (simp add: unique_emails_snoc)
    have "find (\<lambda>v. email v = email ?n) (t @ [?n]) = Some ?n"
      using u1 by (intro unique_emails_find) auto
    then have 2: "findOrCreateUserByEmail env2 (t @ [?n]) e = (Inr ?n, t @ [?n])"
      using a by (simp add: findOrCreateUserByEmail_def findOneBy_def)
    have "filter (\<lambda>w. email w = email ?n) (t @ [?n]) = [?n]"
      using u1 by (intro unique_emails_filter) auto
    then have 3: "filter (\<lambda>w. email w = e) (t @ [?n]) = [?n]" by simp
    from 1 2 3 u1 show ?thesis by blast
  next
    case (Some v)
    then have ve: "email v = e \<and> v \<in> set t" by (rule find_email)
    from Some a have 1: "findOrCreateUserByEmail env t e = (Inr v, t)"
      by (simp add: findOrCreateUserByEmail_def findOneBy_def)
    from Some a have 2: "findOrCreateUserByEmail env2 t e = (Inr v, t)"
      by (simp add: findOrCreateUserByEmail_def findOneBy_def)
    have "filter (\<lambda>w. email w = email v) t = [v]"
      using a ve by (intro unique_emails_filter) auto
    then have 3: "filter (\<lambda>w. email w = e) t = [v]" using ve by simp
    from 1 2 3 a show ?thesis by blast
  qed
qed

text \<open>The first call for a new email, then the same call again.\<close>

theorem findOrCreateUserByEmail_idempotent_witness:
  "\<not> find_fails working_db \<and> \<not> save_fails working_db
   \<and> \<not> list_ex (\<lambda>v. email v = NEW_USER_EMAIL) []
   \<and> findOrCreateUserByEmail working_db [] NEW_USER_EMAIL = (Inr new_user_row, [new_user_row])
   \<and> unique_emails [new_user_row] \<and> new_user_row \<in> set [new_user_row]
   \<and> email new_user_row = NEW_USER_EMAIL
   \<and> findOrCreateUserByEmail working_db [new_user_row] NEW_USER_EMAIL =
       (Inr new_user_row, [new_user_row])"
proof -
  have h: "\<not> find_fails working_db" "\<not> save_fails working_db"
    "uuid working_db = MOCK_USER_ID" "now working_db = 0"
    by (simp_all add: working_db_def)
  have n: "\<not> list_ex (\<lambda>v. email v = NEW_USER_EMAIL) []" by simp
  have r: "unique_emails [new_user_row]" "new_user_row \<in> set [new_user_row]"
    "email new_user_row = NEW_USER_EMAIL"
    by (simp_all add: unique_emails_def new_user_row_def)
  from findOrCreateUserByEmail_idempotent
      [of working_db "[]" new_user_row NEW_USER_EMAIL working_db] h n
  have 1: "findOrCreateUserByEmail working_db [] NEW_USER_EMAIL =
      (Inr new_user_row, [new_user_row])"
    by (simp add: new_user_row_def)
  from findOrCreateUserByEmail_idempotent
      [of working_db "[new_user_row]" new_user_row NEW_USER_EMAIL working_db] h r
  have 2: "findOrCreateUserByEmail working_db [new_user_row] NEW_USER_EMAIL =
      (Inr new_user_row, [new_user_row])"
    by blast
  from h n r 1 2 show ?thesis by blast
qed




end
